theory Spec2Isabelle
  imports Complex_Main
begin

section \<open>CoordinateMapper: key index translation (lib/Resources/Util)\<close>

text \<open>
  Key indices are JavaScript numbers that hold integers; they are modelled as \<open>int\<close>.
  \<open>Math.floor(a / b)\<close> for a non-zero \<open>b\<close> is the floor division \<open>div\<close> of \<open>int\<close>.
  The remainder operator \<open>%\<close> of JavaScript takes the sign of the dividend, unlike
  \<open>mod\<close> on \<open>int\<close>, so it gets a definition of its own. A remainder by zero is NaN in
  JavaScript; the only place where the divisor is not a constant is \<open>toGlobalKey\<close>,
  which returns \<open>None\<close> for NaN.

  JavaScript numbers are doubles. Sums, products and floored quotients of integers are the
  exact ones as long as every value stays within the integers that a double holds exactly,
  from \<open>-(2^53 - 1)\<close> to \<open>2^53 - 1\<close> (\<open>Number.isSafeInteger\<close>); beyond them the code
  rounds and the definitions below do not. A property that lets a value grow with its
  arguments carries a bound that keeps it in this range.
\<close>

definition safe_integer :: "int \<Rightarrow> bool" where
  "safe_integer n = (- (2 ^ 53 - 1) \<le> n \<and> n \<le> 2 ^ 53 - 1)"

definition js_rem :: "int \<Rightarrow> int \<Rightarrow> int" where
  "js_rem a b = sgn a * (\<bar>a\<bar> mod \<bar>b\<bar>)"

text \<open>The globals set at application start: \<open>global.MAX_BUTTONS\<close> and
  \<open>global.MAX_BUTTONS_PER_ROW\<close>.\<close>

definition MAX_BUTTONS :: int where
  "MAX_BUTTONS = 32"

definition MAX_BUTTONS_PER_ROW :: int where
  "MAX_BUTTONS_PER_ROW = 8"

text \<open>
  \<open>from15to32\<close>: the call to \<open>debug\<close> before the clamped return only writes a
  diagnostic line and is left out.
\<close>

definition from15to32 :: "int \<Rightarrow> int" where
  "from15to32 key0 =
     (let key = key0 - 1;
          rows = key div 5;
          col = js_rem key 5 + 1;
          res = rows * 8 + col
      in if res \<ge> 32 then 31 else res)"

text \<open>
  The comparison \<open>row >= keysTotal / keysPerRow\<close> of \<open>toDeviceKey\<close>. The quotient is a
  JavaScript number, not an integer quotient: it is compared exactly, as a rational.
  With \<open>keysPerRow = 0\<close> the quotient is \<open>-Infinity\<close> for a negative \<open>keysTotal\<close>
  (every row is at least that), \<open>Infinity\<close> for a positive one and NaN for zero
  (both comparisons are false).
\<close>

definition row_ge_quotient :: "int \<Rightarrow> int \<Rightarrow> int \<Rightarrow> bool" where
  "row_ge_quotient row keysTotal keysPerRow =
     (if keysPerRow = 0 then keysTotal < 0
      else (of_int row :: rat) \<ge> of_int keysTotal / of_int keysPerRow)"

definition toDeviceKey :: "int \<Rightarrow> int \<Rightarrow> int \<Rightarrow> int" where
  "toDeviceKey keysTotal keysPerRow key =
     (if keysTotal = MAX_BUTTONS then key
      else if js_rem key MAX_BUTTONS_PER_ROW > keysPerRow then - 1
      else
        (let row = key div MAX_BUTTONS_PER_ROW;
             col = js_rem key MAX_BUTTONS_PER_ROW
         in if row_ge_quotient row keysTotal keysPerRow \<or> col \<ge> keysPerRow then - 1
            else row * keysPerRow + col))"

text \<open>
  \<open>toGlobalKey\<close>: with \<open>keysPerRow = 0\<close> the column \<open>key % 0\<close> is NaN and so is the
  result, which is \<open>None\<close> here. \<open>toDeviceKey\<close> maps NaN to NaN on every path (it is
  returned as it is for a 32-key device; otherwise every comparison with NaN is false and
  the arithmetic of the last line yields NaN), so the composition of the two functions is
  \<open>map_option (toDeviceKey keysTotal keysPerRow)\<close>.
\<close>

definition toGlobalKey :: "int \<Rightarrow> int \<Rightarrow> int option" where
  "toGlobalKey keysPerRow key =
     (if keysPerRow = 0 then None
      else
        (let rows = key div keysPerRow;
             col = js_rem key keysPerRow
         in Some (rows * MAX_BUTTONS_PER_ROW + col)))"

section \<open>SchemaMigrator: versioned upgrades (lib/Data/Upgrade)\<close>

text \<open>
  The exceptions a run of the code ends with: \<open>ReferenceError\<close> is raised when an
  identifier that is bound nowhere is evaluated; \<open>TypeError\<close> is raised when a property of
  \<open>undefined\<close> is read (an index outside \<open>allUpgrades\<close>, a socket without
  \<open>button_listeners\<close>).
\<close>

datatype error = ReferenceError | TypeError

text \<open>
  Modelled from the spec: the mapping store (the database class is not among the sources).
  The spec gives it \<open>getKey(name, default)\<close>, \<open>setKey(name, value)\<close> and \<open>save()\<close>. The
  only key this module reads or writes is \<open>page_config_version\<close>; everything else the store
  holds is the field \<open>content\<close>, of any type. \<open>getKey\<close> returns the default for an unset key.
\<close>

record 'c store =
  page_config_version :: "int option"
  content :: 'c

definition getKey_version :: "'c store \<Rightarrow> int \<Rightarrow> int" where
  "getKey_version db dflt = (case page_config_version db of None \<Rightarrow> dflt | Some v \<Rightarrow> v)"

definition setKey_version :: "int \<Rightarrow> 'c store \<Rightarrow> 'c store" where
  "setKey_version v db = db\<lparr>page_config_version := Some v\<rparr>"

text \<open>
  What \<open>upgradeStartup\<close> does to the store and its files, in the order it does it: the
  best-effort copy
  \<open>saveUpgradeCopy(db, i)\<close> (its own failures are caught inside it), the call of step \<open>i\<close>
  (\<open>allUpgrades[i - 1].upgradeStartup(db)\<close>), \<open>db.setKey('page_config_version', n)\<close> and
  \<open>db.save()\<close>.
\<close>

datatype effect = SaveUpgradeCopy int | RunUpgrade int | SetVersion int | Save

text \<open>
  An exported configuration object: its \<open>version\<close> field, which may be absent, and the rest.
  An upgrade step carries the mandatory transform of the live store and the optional transform
  of an exported object. The steps themselves (\<open>v1tov2\<close>, \<open>v2tov3\<close>) are not among the sources:
  the list \<open>allUpgrades\<close> is a parameter of every function below, and
  \<open>targetVersion = allUpgrades.length + 1\<close>.
\<close>

record 'b obj =
  version :: "int option"
  body :: 'b

record ('c, 'b) upgrade =
  upgradeStartup_of :: "'c store \<Rightarrow> 'c store"
  upgradeImport_of :: "('b obj \<Rightarrow> 'b obj) option"

definition targetVersion :: "('c, 'b) upgrade list \<Rightarrow> int" where
  "targetVersion allUpgrades = int (length allUpgrades) + 1"

text \<open>
  The loop \<open>for (let i = currentVersion; i < targetVersion; i++)\<close> of \<open>upgradeStartup\<close>,
  on the store and the trace of effects so far. Reading \<open>allUpgrades[i - 1]\<close> outside the
  array gives \<open>undefined\<close>, and the call on it raises after the copy has been attempted.
\<close>

function run_scripts ::
  "('c, 'b) upgrade list \<Rightarrow> int \<Rightarrow> 'c store \<times> effect list
     \<Rightarrow> error \<times> 'c store \<times> effect list + 'c store \<times> effect list" where
  "run_scripts allUpgrades i (db, trace) =
     (if i < targetVersion allUpgrades then
        (if i - 1 < 0 \<or> int (length allUpgrades) \<le> i - 1
         then Inl (TypeError, db, trace @ [SaveUpgradeCopy i])
         else run_scripts allUpgrades (i + 1)
                (upgradeStartup_of (allUpgrades ! nat (i - 1)) db,
                 trace @ [SaveUpgradeCopy i, RunUpgrade i]))
      else Inr (db, trace))"
  by pat_completeness auto
termination
  by (relation "measure (\<lambda>(allUpgrades, i, s). nat (targetVersion allUpgrades - i))") auto

text \<open>
  \<open>upgradeStartup(db)\<close>. The result is either the error with the store and the trace at that
  point, or the store and the trace at the return.

  The branch for a store that is too new reads
  \<open>showFatalError('Error starting companion', message)\<close> and then \<open>process.exit(1)\<close>. The
  module imports \<open>debug\<close>, \<open>fs-extra\<close> and the two upgrade scripts only: the name
  \<open>showFatalError\<close> (exported by lib/Resources/Util) is bound neither in the module nor as a
  global, so evaluating it raises \<open>ReferenceError\<close> before anything is shown, and
  \<open>process.exit(1)\<close> is not reached.
\<close>

definition upgradeStartup ::
  "('c, 'b) upgrade list \<Rightarrow> 'c store
     \<Rightarrow> error \<times> 'c store \<times> effect list + 'c store \<times> effect list" where
  "upgradeStartup allUpgrades db =
     (let currentVersion = getKey_version db 1 in
      if currentVersion > targetVersion allUpgrades then Inl (ReferenceError, db, [])
      else
        (case run_scripts allUpgrades currentVersion (db, []) of
           Inl e \<Rightarrow> Inl e
         | Inr (db', trace) \<Rightarrow>
             Inr (setKey_version (targetVersion allUpgrades) db',
                  trace @ [SetVersion (targetVersion allUpgrades), Save])))"

text \<open>
  \<open>upgradeImport(obj)\<close>. \<open>obj.version || 1\<close> is 1 for an absent version and for 0.
\<close>

definition version_or_1 :: "'b obj \<Rightarrow> int" where
  "version_or_1 ob = (case version ob of None \<Rightarrow> 1 | Some v \<Rightarrow> if v = 0 then 1 else v)"

definition run_import :: "('c, 'b) upgrade \<Rightarrow> 'b obj \<Rightarrow> 'b obj" where
  "run_import u ob = (case upgradeImport_of u of None \<Rightarrow> ob | Some f \<Rightarrow> f ob)"

function import_scripts ::
  "('c, 'b) upgrade list \<Rightarrow> int \<Rightarrow> 'b obj \<Rightarrow> error + 'b obj" where
  "import_scripts allUpgrades i ob =
     (if i < targetVersion allUpgrades then
        (if i - 1 < 0 \<or> int (length allUpgrades) \<le> i - 1 then Inl TypeError
         else import_scripts allUpgrades (i + 1) (run_import (allUpgrades ! nat (i - 1)) ob))
      else Inr ob)"
  by pat_completeness auto
termination
  by (relation "measure (\<lambda>(allUpgrades, i, ob). nat (targetVersion allUpgrades - i))") auto

definition upgradeImport :: "('c, 'b) upgrade list \<Rightarrow> 'b obj \<Rightarrow> error + 'b obj" where
  "upgradeImport allUpgrades ob =
     (case import_scripts allUpgrades (version_or_1 ob) ob of
        Inl e \<Rightarrow> Inl e
      | Inr ob' \<Rightarrow> Inr (ob'\<lparr>version := Some (targetVersion allUpgrades)\<rparr>))"

section \<open>VirtualSurfaceProtocolService (lib/Service/ElgatoPlugin)\<close>

text \<open>
  Sockets are objects shared between the service and its event listeners, and \<open>this.client\<close>
  is a second reference to one of them, so the service state holds a store of sockets indexed
  by a number, and \<open>client\<close> holds such a number.

  \<open>button_listeners\<close> is one JavaScript object. Registration creates it with the two keys
  \<open>dynamic\<close> and \<open>static\<close>; \<open>request_button\<close> adds one key per page, whose value is an
  object with one key per bank. It is a map from keys to sets of banks. Page and bank numbers
  are integers, as the wire protocol has them.

  \<open>parseInt\<close> applied to a number writes the number as a string and parses the string. For
  an integer-valued number below \<open>10^21\<close> in magnitude the string is a decimal numeral that
  reads back as the same number, so the result is the argument. From \<open>10^21\<close> on the string
  is in exponent form and the parse stops after its leading digits
  (\<open>parseInt(1e21)\<close> is 1); likewise \<open>bank + 1\<close> and \<open>bank - 1\<close> are rounded from
  \<open>2^53\<close> on. The model is that of the safe integers: every property about pages and banks
  assumes \<open>safe_integer\<close> of each number that is parsed, raised or lowered.
\<close>

definition parseInt :: "int \<Rightarrow> int" where
  "parseInt n = n"

datatype pkey = Dynamic | Static | Page int

text \<open>
  Outbound frames: the replies sent with \<open>socket.apireply\<close> and the one command sent with
  \<open>socket.apicommand\<close>, \<open>fillImage\<close> with its fields \<open>page\<close>, \<open>bank\<close>, \<open>keyIndex\<close> and
  \<open>data\<close>.
\<close>

datatype ('buf, 'inst) outmsg =
    ReplyVersion int "string option"
  | ReplyNewDevice bool
  | ReplyGetInstances 'inst
  | ReplyRequestButton string
  | FillImage int int int 'buf

text \<open>
  The events emitted on a socket, with their arguments: one per command of the wire protocol
  (the message listener of \<open>processIncoming\<close> emits \<open>data.command\<close> with
  \<open>data.arguments\<close>), and \<open>close\<close>. The version argument may be undefined (\<open>None\<close>).
\<close>

datatype event =
    Version "int option"
  | NewDevice string
  | GetInstances
  | RequestButton int int
  | UnrequestButton int int
  | Close

text \<open>
  The listeners the service attaches to a socket, named after the place that attaches them.
  The two \<open>new_device\<close> listeners are attached with \<open>once\<close>. The close listeners carry the
  device id their closure has captured.
\<close>

datatype listener =
    OnVersion
  | OnceNewDevice1
  | OnceNewDevice2
  | OnGetInstances
  | OnCloseV1 string
  | OnCloseV2 string
  | OnRequestButton
  | OnUnrequestButton

text \<open>
  The calls made to the collaborators: \<open>surfaces.addDevice\<close>, \<open>surfaces.removeDevice\<close> and
  the \<open>_plugin_startup\<close> event on the system bus, which carries the socket.
\<close>

datatype registry_call = AddDevice string | RemoveDevice string | PluginStartup string nat

record ('buf, 'inst) socket =
  remoteAddress :: string
  listeners :: "listener list"
  button_listeners :: "(pkey \<rightharpoonup> int set) option"
  sent :: "('buf, 'inst) outmsg list"
  close_called :: bool

text \<open>
  The service: the sockets, \<open>this.client\<close>, the calls made so far, the next free socket
  number, and the two collaborators that are read: the renderer
  (\<open>graphics.getBank(page, bank).buffer\<close>) and the instance table (\<open>db.getKey('instance')\<close>).
\<close>

record ('buf, 'inst) service =
  sockets :: "nat \<rightharpoonup> ('buf, 'inst) socket"
  client :: "nat option"
  calls :: "registry_call list"
  next_socket :: nat
  graphics :: "int \<Rightarrow> int \<Rightarrow> 'buf"
  instances :: 'inst

fun listens_to :: "event \<Rightarrow> listener \<Rightarrow> bool" where
  "listens_to (Version v) OnVersion = True"
| "listens_to (NewDevice x) OnceNewDevice1 = True"
| "listens_to (NewDevice x) OnceNewDevice2 = True"
| "listens_to GetInstances OnGetInstances = True"
| "listens_to Close (OnCloseV1 x) = True"
| "listens_to Close (OnCloseV2 x) = True"
| "listens_to (RequestButton p b) OnRequestButton = True"
| "listens_to (UnrequestButton p b) OnUnrequestButton = True"
| "listens_to ev l = False"

definition on_socket ::
  "nat \<Rightarrow> (('buf, 'inst) socket \<Rightarrow> ('buf, 'inst) socket) \<Rightarrow> ('buf, 'inst) service
     \<Rightarrow> ('buf, 'inst) service" where
  "on_socket sid f svc =
     (case sockets svc sid of
        None \<Rightarrow> svc
      | Some s \<Rightarrow> svc\<lparr>sockets := (sockets svc)(sid \<mapsto> f s)\<rparr>)"

definition socketCommand ::
  "nat \<Rightarrow> ('buf, 'inst) outmsg \<Rightarrow> ('buf, 'inst) service \<Rightarrow> ('buf, 'inst) service" where
  "socketCommand sid m svc = on_socket sid (\<lambda>s. s\<lparr>sent := sent s @ [m]\<rparr>) svc"

definition socketResponse ::
  "nat \<Rightarrow> ('buf, 'inst) outmsg \<Rightarrow> ('buf, 'inst) service \<Rightarrow> ('buf, 'inst) service" where
  "socketResponse sid m svc = on_socket sid (\<lambda>s. s\<lparr>sent := sent s @ [m]\<rparr>) svc"

definition add_listeners ::
  "nat \<Rightarrow> listener list \<Rightarrow> ('buf, 'inst) service \<Rightarrow> ('buf, 'inst) service" where
  "add_listeners sid ls svc = on_socket sid (\<lambda>s. s\<lparr>listeners := listeners s @ ls\<rparr>) svc"

text \<open>
  \<open>handleBankChanged(page, bank)\<close>: page and bank are parsed, the bank is lowered by one,
  looked up under the page in the \<open>button_listeners\<close> of \<open>this.client\<close>, and parsed and
  raised by one again for the renderer.
\<close>

definition handleBankChanged ::
  "('buf, 'inst) service \<Rightarrow> int \<Rightarrow> int \<Rightarrow> ('buf, 'inst) service" where
  "handleBankChanged svc page0 bank0 =
     (let page = parseInt page0; bank = parseInt bank0 - 1 in
      case client svc of
        None \<Rightarrow> svc
      | Some c \<Rightarrow>
          (case sockets svc c of
             None \<Rightarrow> svc
           | Some s \<Rightarrow>
               (case button_listeners s of
                  None \<Rightarrow> svc
                | Some ls \<Rightarrow>
                    (case ls (Page page) of
                       None \<Rightarrow> svc
                     | Some banks \<Rightarrow>
                         if bank \<in> banks
                         then (let button = graphics svc page (parseInt bank + 1)
                               in socketCommand c (FillImage page bank bank button) svc)
                         else svc))))"

text \<open>
  The listener of \<open>new_device\<close>, for the two protocol versions. A listener attached with
  \<open>once\<close> is detached before its body runs.
\<close>

definition device_id :: "('buf, 'inst) service \<Rightarrow> nat \<Rightarrow> string" where
  "device_id svc sid =
     ''elgato_plugin-'' @ (case sockets svc sid of None \<Rightarrow> [] | Some s \<Rightarrow> remoteAddress s)"

definition register_device :: "nat \<Rightarrow> ('buf, 'inst) service \<Rightarrow> ('buf, 'inst) service" where
  "register_device sid svc =
     (let ident = device_id svc sid;
          svc1 = svc\<lparr>calls := calls svc @ [AddDevice ident, PluginStartup ident sid]\<rparr>
      in socketResponse sid (ReplyNewDevice True) svc1)"

definition new_device_v1 :: "nat \<Rightarrow> ('buf, 'inst) service \<Rightarrow> ('buf, 'inst) service" where
  "new_device_v1 sid svc =
     (let svc1 = on_socket sid (\<lambda>s. s\<lparr>listeners := remove1 OnceNewDevice1 (listeners s)\<rparr>) svc;
          svc2 = register_device sid svc1
      in add_listeners sid [OnGetInstances, OnCloseV1 (device_id svc sid)] svc2)"

definition new_device_v2 :: "nat \<Rightarrow> ('buf, 'inst) service \<Rightarrow> ('buf, 'inst) service" where
  "new_device_v2 sid svc =
     (let svc1 = on_socket sid (\<lambda>s. s\<lparr>listeners := remove1 OnceNewDevice2 (listeners s)\<rparr>) svc;
          svc2 = register_device sid svc1;
          svc3 = on_socket sid
                   (\<lambda>s. s\<lparr>button_listeners := Some [Dynamic \<mapsto> {}, Static \<mapsto> {}]\<rparr>) svc2;
          svc4 = svc3\<lparr>client := Some sid\<rparr>
      in add_listeners sid [OnCloseV2 (device_id svc sid)] svc4)"

definition get_instances :: "nat \<Rightarrow> ('buf, 'inst) service \<Rightarrow> ('buf, 'inst) service" where
  "get_instances sid svc = socketResponse sid (ReplyGetInstances (instances svc)) svc"

definition close_v1 :: "string \<Rightarrow> nat \<Rightarrow> ('buf, 'inst) service \<Rightarrow> ('buf, 'inst) service" where
  "close_v1 ident sid svc = svc\<lparr>calls := calls svc @ [RemoveDevice ident]\<rparr>"

definition close_v2 :: "string \<Rightarrow> nat \<Rightarrow> ('buf, 'inst) service \<Rightarrow> ('buf, 'inst) service" where
  "close_v2 ident sid svc =
     (let svc1 = on_socket sid (\<lambda>s. s\<lparr>button_listeners := None\<rparr>) svc;
          svc2 = svc1\<lparr>calls := calls svc1 @ [RemoveDevice ident]\<rparr>
      in svc2\<lparr>client := None\<rparr>)"

text \<open>
  The listeners of \<open>request_button\<close> and \<open>unrequest_button\<close>. They are attached by
  \<open>initAPI2\<close>, before any device has registered: reading a page of an undefined
  \<open>button_listeners\<close> raises before anything is changed.
\<close>

definition request_button ::
  "nat \<Rightarrow> int \<Rightarrow> int \<Rightarrow> ('buf, 'inst) service
     \<Rightarrow> error \<times> ('buf, 'inst) service + ('buf, 'inst) service" where
  "request_button sid page bank svc =
     (case sockets svc sid of
        None \<Rightarrow> Inl (TypeError, svc)
      | Some s \<Rightarrow>
          (case button_listeners s of
             None \<Rightarrow> Inl (TypeError, svc)
           | Some ls \<Rightarrow>
               (let ls1 = (if ls (Page page) = None then ls(Page page \<mapsto> {}) else ls);
                    ls2 = (case ls1 (Page page) of
                             None \<Rightarrow> ls1
                           | Some banks \<Rightarrow> ls1(Page page \<mapsto> insert bank banks));
                    svc1 = on_socket sid (\<lambda>s. s\<lparr>button_listeners := Some ls2\<rparr>) svc;
                    svc2 = socketResponse sid (ReplyRequestButton ''ok'') svc1
                in Inr (handleBankChanged svc2 page (parseInt bank + 1)))))"

definition unrequest_button ::
  "nat \<Rightarrow> int \<Rightarrow> int \<Rightarrow> ('buf, 'inst) service
     \<Rightarrow> error \<times> ('buf, 'inst) service + ('buf, 'inst) service" where
  "unrequest_button sid page bank svc =
     (case sockets svc sid of
        None \<Rightarrow> Inl (TypeError, svc)
      | Some s \<Rightarrow>
          (case button_listeners s of
             None \<Rightarrow> Inl (TypeError, svc)
           | Some ls \<Rightarrow>
               (let ls1 = (case ls (Page page) of
                             None \<Rightarrow> ls
                           | Some banks \<Rightarrow> ls(Page page \<mapsto> banks - {bank}));
                    svc1 = on_socket sid (\<lambda>s. s\<lparr>button_listeners := Some ls1\<rparr>) svc
                in Inr (socketResponse sid (ReplyRequestButton ''ok'') svc1))))"

definition initAPI1 :: "nat \<Rightarrow> ('buf, 'inst) service \<Rightarrow> ('buf, 'inst) service" where
  "initAPI1 sid svc = add_listeners sid [OnceNewDevice1] svc"

definition initAPI2 :: "nat \<Rightarrow> ('buf, 'inst) service \<Rightarrow> ('buf, 'inst) service" where
  "initAPI2 sid svc = add_listeners sid [OnceNewDevice2, OnRequestButton, OnUnrequestButton] svc"

text \<open>
  The listener of \<open>version\<close> attached by \<open>initSocket\<close>. \<open>undefined > 2\<close> is false.
  \<open>socket.close()\<close> is recorded in \<open>close_called\<close>.
\<close>

definition version_gt :: "int option \<Rightarrow> int \<Rightarrow> bool" where
  "version_gt v n = (case v of None \<Rightarrow> False | Some k \<Rightarrow> k > n)"

definition on_version :: "nat \<Rightarrow> int option \<Rightarrow> ('buf, 'inst) service \<Rightarrow> ('buf, 'inst) service" where
  "on_version sid v svc =
     (if version_gt v 2 then
        (let svc1 = socketResponse sid (ReplyVersion 2 (Some ''cannot continue'')) svc
         in on_socket sid (\<lambda>s. s\<lparr>close_called := True\<rparr>) svc1)
      else if v = Some 1 then
        (let svc1 = socketResponse sid (ReplyVersion 1 None) svc
         in initAPI1 sid svc1)
      else
        (let svc1 = socketResponse sid (ReplyVersion 2 None) svc
         in initAPI2 sid svc1))"

fun call_listener ::
  "listener \<Rightarrow> event \<Rightarrow> nat \<Rightarrow> ('buf, 'inst) service
     \<Rightarrow> error \<times> ('buf, 'inst) service + ('buf, 'inst) service" where
  "call_listener OnVersion (Version v) sid svc = Inr (on_version sid v svc)"
| "call_listener OnceNewDevice1 (NewDevice x) sid svc = Inr (new_device_v1 sid svc)"
| "call_listener OnceNewDevice2 (NewDevice x) sid svc = Inr (new_device_v2 sid svc)"
| "call_listener OnGetInstances GetInstances sid svc = Inr (get_instances sid svc)"
| "call_listener (OnCloseV1 ident) Close sid svc = Inr (close_v1 ident sid svc)"
| "call_listener (OnCloseV2 ident) Close sid svc = Inr (close_v2 ident sid svc)"
| "call_listener OnRequestButton (RequestButton page bank) sid svc = request_button sid page bank svc"
| "call_listener OnUnrequestButton (UnrequestButton page bank) sid svc =
     unrequest_button sid page bank svc"
| "call_listener l ev sid svc = Inr svc"

text \<open>
  \<open>socket.emit\<close> calls the listeners of the event in the order they were attached, from a
  copy of the list taken when the event is emitted; an exception ends the emission, and the
  \<open>try\<close> block of the message listener catches it, keeping what was changed before.
\<close>

fun call_listeners ::
  "listener list \<Rightarrow> event \<Rightarrow> nat \<Rightarrow> ('buf, 'inst) service
     \<Rightarrow> error \<times> ('buf, 'inst) service + ('buf, 'inst) service" where
  "call_listeners [] ev sid svc = Inr svc"
| "call_listeners (l # ls) ev sid svc =
     (case call_listener l ev sid svc of
        Inl e \<Rightarrow> Inl e
      | Inr svc' \<Rightarrow> call_listeners ls ev sid svc')"

definition emit ::
  "nat \<Rightarrow> event \<Rightarrow> ('buf, 'inst) service
     \<Rightarrow> error \<times> ('buf, 'inst) service + ('buf, 'inst) service" where
  "emit sid ev svc =
     (case sockets svc sid of
        None \<Rightarrow> Inr svc
      | Some s \<Rightarrow> call_listeners (filter (listens_to ev) (listeners s)) ev sid svc)"

definition on_message :: "nat \<Rightarrow> event \<Rightarrow> ('buf, 'inst) service \<Rightarrow> ('buf, 'inst) service" where
  "on_message sid ev svc =
     (case emit sid ev svc of
        Inl (e, svc') \<Rightarrow> svc'
      | Inr svc' \<Rightarrow> svc')"

definition initSocket :: "string \<Rightarrow> ('buf, 'inst) socket" where
  "initSocket addr =
     \<lparr>remoteAddress = addr, listeners = [OnVersion], button_listeners = None, sent = [],
      close_called = False\<rparr>"

definition processIncoming ::
  "string \<Rightarrow> ('buf, 'inst) service \<Rightarrow> nat \<times> ('buf, 'inst) service" where
  "processIncoming addr svc =
     (next_socket svc,
      svc\<lparr>sockets := (sockets svc)(next_socket svc \<mapsto> initSocket addr),
          next_socket := Suc (next_socket svc)\<rparr>)"

text \<open>
  What reaches the service: a new connection, an event on a socket, and the system event
  \<open>graphics_bank_invalidated\<close>, whose listener is \<open>handleBankChanged\<close>.
\<close>

datatype input = Connect string | Recv nat event | BankInvalidated int int

fun step :: "input \<Rightarrow> ('buf, 'inst) service \<Rightarrow> ('buf, 'inst) service" where
  "step (Connect addr) svc = snd (processIncoming addr svc)"
| "step (Recv sid ev) svc = on_message sid ev svc"
| "step (BankInvalidated page bank) svc = handleBankChanged svc page bank"

definition started :: "(int \<Rightarrow> int \<Rightarrow> 'buf) \<Rightarrow> 'inst \<Rightarrow> ('buf, 'inst) service" where
  "started g i =
     \<lparr>sockets = Map.empty, client = None, calls = [], next_socket = 0, graphics = g,
      instances = i\<rparr>"

definition run :: "input list \<Rightarrow> ('buf, 'inst) service \<Rightarrow> ('buf, 'inst) service" where
  "run ins svc = fold step ins svc"

text \<open>Observations used to state properties: the frames sent to a socket so far.\<close>

definition sent_to :: "('buf, 'inst) service \<Rightarrow> nat \<Rightarrow> ('buf, 'inst) outmsg list" where
  "sent_to svc sid = (case sockets svc sid of None \<Rightarrow> [] | Some s \<Rightarrow> sent s)"

text \<open>
  An input registers a device under the v2 protocol when it is a \<open>new_device\<close> event on a
  socket that still has a v2 \<open>new_device\<close> listener. \<open>last_registered_v2\<close> follows a run
  of inputs and returns the socket of the last such registration.
\<close>

fun v2_registration :: "('buf, 'inst) service \<Rightarrow> input \<Rightarrow> nat option" where
  "v2_registration svc (Recv sid (NewDevice x)) =
     (case sockets svc sid of
        None \<Rightarrow> None
      | Some s \<Rightarrow> if OnceNewDevice2 \<in> set (listeners s) then Some sid else None)"
| "v2_registration svc i = None"

fun last_registered_v2 ::
  "input list \<Rightarrow> ('buf, 'inst) service \<Rightarrow> nat option \<Rightarrow> nat option" where
  "last_registered_v2 [] svc l = l"
| "last_registered_v2 (i # ins) svc l =
     last_registered_v2 ins (step i svc)
       (case v2_registration svc i of None \<Rightarrow> l | Some c \<Rightarrow> Some c)"

text \<open>
  The inputs whose numbers stay within the safe integers where the code parses, raises or
  lowers them: \<open>request_button\<close> raises the bank by one, \<open>handleBankChanged\<close> lowers it by
  one.
\<close>

fun input_in_range :: "input \<Rightarrow> bool" where
  "input_in_range (Recv sid (RequestButton page bank)) =
     (safe_integer page \<and> safe_integer bank \<and> safe_integer (bank + 1))"
| "input_in_range (Recv sid (UnrequestButton page bank)) = (safe_integer page \<and> safe_integer bank)"
| "input_in_range (BankInvalidated page bank) =
     (safe_integer page \<and> safe_integer bank \<and> safe_integer (bank - 1))"
| "input_in_range i = True"

text \<open>The test of \<open>handleBankChanged\<close> on a socket: the bank is a key under the page.\<close>

definition subscribed :: "('buf, 'inst) service \<Rightarrow> nat \<Rightarrow> int \<Rightarrow> int \<Rightarrow> bool" where
  "subscribed svc sid page bank =
     (case sockets svc sid of
        None \<Rightarrow> False
      | Some s \<Rightarrow>
          (case button_listeners s of
             None \<Rightarrow> False
           | Some ls \<Rightarrow> (case ls (Page page) of None \<Rightarrow> False | Some banks \<Rightarrow> bank \<in> banks)))"

section \<open>Properties of the CoordinateMapper\<close>

lemma js_rem_nonneg: "0 \<le> a \<Longrightarrow> js_rem a b = a mod \<bar>b\<bar>"
  by (cases "a = 0") (simp_all add: js_rem_def)

text \<open>
  Claim C2, as amended: \<open>from15to32 1 = 1\<close>, \<open>from15to32 6 = 9\<close> and \<open>from15to32 15 = 21\<close>
  (the result keeps the 1-based numbering of the legacy key).
\<close>

theorem from15to32_examples: "from15to32 1 = 1 \<and> from15to32 6 = 9 \<and> from15to32 15 = 21"
  by (simp add: from15to32_def js_rem_def)

text \<open>
  Claim C2 as stated (results 0, 8 and 18) fails at each of the three inputs.
\<close>

theorem from15to32_examples_counterexample:
  "from15to32 1 \<noteq> 0 \<and> from15to32 6 \<noteq> 8 \<and> from15to32 15 \<noteq> 18"
  by (simp add: from15to32_def js_rem_def)

text \<open>
  Claim C10. For every legacy key \<open>oldKey \<ge> 1\<close>, \<open>from15to32\<close> returns a value between 1 and
  31: it never returns 0, because the mapped column is \<open>(oldKey - 1) % 5 + 1 \<ge> 1\<close>, and a
  computed result of 32 or more is replaced by 31.
\<close>

theorem from15to32_range:
  assumes "1 \<le> oldKey"
  shows "1 \<le> from15to32 oldKey \<and> from15to32 oldKey \<le> 31
    \<and> from15to32 oldKey \<noteq> 0
    \<and> (32 \<le> ((oldKey - 1) div 5) * 8 + ((oldKey - 1) mod 5 + 1) \<longrightarrow> from15to32 oldKey = 31)"
proof -
  define q where "q = (oldKey - 1) div 5"
  define c where "c = (oldKey - 1) mod 5"
  have k: "0 \<le> oldKey - 1" using assms by simp
  have r: "js_rem (oldKey - 1) 5 = c"
    using js_rem_nonneg [OF k, of 5] by (simp add: c_def)
  have d: "0 \<le> q" using k by (simp add: q_def pos_imp_zdiv_nonneg_iff)
  have m: "0 \<le> c" by (simp add: c_def)
  have f: "from15to32 oldKey = (if 32 \<le> q * 8 + (c + 1) then 31 else q * 8 + (c + 1))"
    by (simp add: from15to32_def r Let_def q_def)
  show ?thesis unfolding f q_def [symmetric] c_def [symmetric] using d m by auto
qed

theorem from15to32_range_witness:
  "(1::int) \<le> 16 \<and> 1 \<le> from15to32 16 \<and> from15to32 16 \<le> 31 \<and> from15to32 16 \<noteq> 0
     \<and> from15to32 21 = 31"
  using from15to32_range [of 16] from15to32_range [of 21] by simp

lemma row_ge_quotient_dvd:
  assumes "0 < keysPerRow" and "keysPerRow dvd keysTotal"
  shows "row_ge_quotient row keysTotal keysPerRow \<longleftrightarrow> keysTotal div keysPerRow \<le> row"
proof -
  obtain m where m: "keysTotal = keysPerRow * m" using assms(2) by (auto simp: dvd_def)
  have "(of_int keysTotal :: rat) / of_int keysPerRow = of_int m"
    using assms(1) by (simp add: m)
  moreover have "keysTotal div keysPerRow = m" using assms(1) by (simp add: m)
  ultimately show ?thesis using assms(1) by (simp add: row_ge_quotient_def)
qed

text \<open>
  Claim C1, as amended. For a layout with \<open>keysPerRow \<le> 8\<close> and \<open>keysTotal\<close> a multiple of
  \<open>keysPerRow\<close>, and a logical key in \<open>[0, 32)\<close>: when \<open>keysTotal\<close> is 32 (whatever
  \<open>keysPerRow\<close> is) \<open>toDeviceKey\<close> returns the key unchanged; otherwise, with
  \<open>row = key div 8\<close> and \<open>col = key mod 8\<close>, it returns -1 exactly when \<open>col\<close> is outside
  \<open>[0, keysPerRow)\<close> or \<open>row\<close> is outside \<open>[0, keysTotal div keysPerRow)\<close>, and
  \<open>row * keysPerRow + col\<close> otherwise.
\<close>

theorem toDeviceKey_spec:
  assumes "keysPerRow \<le> 8" and "keysPerRow dvd keysTotal" and "0 \<le> key" and "key < 32"
  shows "toDeviceKey keysTotal keysPerRow key =
    (if keysTotal = 32 then key
     else if key mod 8 < 0 \<or> keysPerRow \<le> key mod 8
             \<or> key div 8 < 0 \<or> keysTotal div keysPerRow \<le> key div 8 then - 1
     else (key div 8) * keysPerRow + key mod 8)"
proof -
  have r: "js_rem key 8 = key mod 8" using js_rem_nonneg [OF assms(3), of 8] by simp
  have c: "0 \<le> key mod 8" by simp
  have d: "0 \<le> key div 8" using assms(3) by (simp add: pos_imp_zdiv_nonneg_iff)
  show ?thesis
  proof (cases "0 < keysPerRow")
    case True
    show ?thesis
      using c d row_ge_quotient_dvd [OF True assms(2), of "key div 8"]
      by (auto simp: toDeviceKey_def MAX_BUTTONS_def MAX_BUTTONS_PER_ROW_def r Let_def)
  next
    case False
    then have "keysPerRow \<le> key mod 8" using c by linarith
    then show ?thesis
      by (auto simp: toDeviceKey_def MAX_BUTTONS_def MAX_BUTTONS_PER_ROW_def r Let_def)
  qed
qed

theorem toDeviceKey_spec_witness:
  "toDeviceKey 15 5 10 = 7 \<and> toDeviceKey 15 5 5 = - 1 \<and> toDeviceKey 15 5 24 = - 1
   \<and> toDeviceKey 32 8 10 = 10"
  using toDeviceKey_spec [of 5 15 10] toDeviceKey_spec [of 5 15 5] toDeviceKey_spec [of 5 15 24]
    toDeviceKey_spec [of 8 32 10]
  by simp

text \<open>
  Claim C1 as stated fails for the layout (32, 4): it satisfies the layout invariants and is
  not the identity layout (32, 8); the logical key 4 has column 4, outside \<open>[0, 4)\<close>, so the
  claim asks for -1, and \<open>toDeviceKey\<close> returns 4, since it tests \<open>keysTotal\<close> alone.
\<close>

theorem toDeviceKey_spec_counterexample:
  "(4::int) \<le> 8 \<and> (4::int) dvd 32 \<and> (32::int, 4::int) \<noteq> (32, 8) \<and> (0::int) \<le> 4 \<and> (4::int) < 32
   \<and> \<not> ((4::int) mod 8 < 4) \<and> toDeviceKey 32 4 4 = 4 \<and> toDeviceKey 32 4 4 \<noteq> - 1"
  by (simp add: toDeviceKey_def MAX_BUTTONS_def)

text \<open>
  Claim C3, as amended. For a layout with \<open>1 \<le> keysPerRow \<le> 8\<close> and \<open>keysTotal\<close> a multiple
  of \<open>keysPerRow\<close> that either has \<open>keysTotal \<noteq> 32\<close> or is the identity layout (32, 8), with
  \<open>keysTotal \<le> 2^50\<close>, and for every device key with \<open>0 \<le> deviceKey < keysTotal\<close>:
  \<open>toDeviceKey (toGlobalKey deviceKey) = deviceKey\<close>, and the global key in between is a
  safe integer. The bound keeps every value of the computation exact in a double: the row is
  below \<open>2^50\<close>, so the quotient \<open>deviceKey / keysPerRow\<close> is floored correctly and the
  global key \<open>row * 8 + col\<close> is below \<open>2^53\<close>.
\<close>

theorem roundtrip:
  assumes "0 < keysPerRow" and "keysPerRow \<le> 8" and "keysPerRow dvd keysTotal"
    and "0 \<le> deviceKey" and "deviceKey < keysTotal"
    and "keysTotal \<noteq> 32 \<or> keysPerRow = 8"
    and "keysTotal \<le> 2 ^ 50"
  shows "map_option (toDeviceKey keysTotal keysPerRow) (toGlobalKey keysPerRow deviceKey)
           = Some deviceKey
         \<and> (\<exists>g. toGlobalKey keysPerRow deviceKey = Some g \<and> 0 \<le> g \<and> safe_integer g)"
proof -
  define q where "q = deviceKey div keysPerRow"
  define c where "c = deviceKey mod keysPerRow"
  define g where "g = q * 8 + c"
  have c0: "0 \<le> c" and c1: "c < keysPerRow" using assms(1) by (simp_all add: c_def)
  have q0: "0 \<le> q" using assms(1,4) by (simp add: q_def pos_imp_zdiv_nonneg_iff)
  have dk: "deviceKey = q * keysPerRow + c" by (simp add: q_def c_def)
  have rem: "js_rem deviceKey keysPerRow = c"
    using js_rem_nonneg [OF assms(4), of keysPerRow] assms(1) by (simp add: c_def)
  have tg: "toGlobalKey keysPerRow deviceKey = Some g"
    using assms(1) by (simp add: toGlobalKey_def MAX_BUTTONS_PER_ROW_def rem q_def g_def Let_def)
  have g0: "0 \<le> g" using q0 c0 by (simp add: g_def)
  have gm: "g mod 8 = c" using c0 c1 assms(2) by (simp add: g_def)
  have gd: "g div 8 = q" using c0 c1 assms(2) by (simp add: g_def)
  have grem: "js_rem g 8 = c" using js_rem_nonneg [OF g0, of 8] gm by simp
  have "toDeviceKey keysTotal keysPerRow g = deviceKey"
  proof (cases "keysTotal = 32")
    case True
    then have "keysPerRow = 8" using assms(6) by simp
    then have "g = deviceKey" by (simp add: g_def q_def c_def)
    then show ?thesis using True by (simp add: toDeviceKey_def MAX_BUTTONS_def)
  next
    case False
    obtain m where m: "keysTotal = keysPerRow * m" using assms(3) by (auto simp: dvd_def)
    have "q < m"
    proof (rule ccontr)
      assume "\<not> q < m"
      then have "m \<le> q" by simp
      then have "keysPerRow * m \<le> keysPerRow * q" using assms(1) by (simp add: mult_left_mono)
      then show False using assms(5) c0 by (simp add: m dk mult.commute)
    qed
    moreover have "keysTotal div keysPerRow = m" using assms(1) by (simp add: m)
    ultimately have "\<not> row_ge_quotient q keysTotal keysPerRow"
      using row_ge_quotient_dvd [OF assms(1,3), of q] by simp
    then show ?thesis
      using False c1
      by (simp add: toDeviceKey_def MAX_BUTTONS_def MAX_BUTTONS_PER_ROW_def grem gd Let_def dk)
  qed
  moreover have "safe_integer g"
  proof -
    have "q * 1 \<le> q * keysPerRow" using q0 assms(1) by (intro mult_left_mono) simp_all
    then have "q \<le> deviceKey" using c0 by (simp add: dk)
    then have "q < 2 ^ 50" using assms(5,7) by simp
    then show ?thesis using q0 c0 c1 assms(2) by (simp add: safe_integer_def g_def)
  qed
  ultimately show ?thesis using g0 by (simp add: tg)
qed

theorem roundtrip_witness:
  "map_option (toDeviceKey 15 5) (toGlobalKey 5 7) = Some 7
   \<and> map_option (toDeviceKey 32 8) (toGlobalKey 8 31) = Some 31"
  using roundtrip [of 5 15 7] roundtrip [of 8 32 31] by simp

text \<open>
  Claim C3 as stated fails for the layout (32, 4) at device key 4: \<open>toGlobalKey\<close> gives the
  logical key 8 (row 1, column 0) and \<open>toDeviceKey\<close> returns 8 unchanged for a 32-key
  device, not 4.
\<close>

theorem roundtrip_counterexample:
  "(4::int) \<le> 8 \<and> (4::int) dvd 32 \<and> (0::int) \<le> 4 \<and> (4::int) < 32
   \<and> toGlobalKey 4 4 = Some 8
   \<and> map_option (toDeviceKey 32 4) (toGlobalKey 4 4) = Some 8
   \<and> map_option (toDeviceKey 32 4) (toGlobalKey 4 4) \<noteq> Some 4"
  by (simp add: toDeviceKey_def toGlobalKey_def MAX_BUTTONS_def MAX_BUTTONS_PER_ROW_def js_rem_def)

section \<open>Properties of the SchemaMigrator\<close>

declare run_scripts.simps [simp del] import_scripts.simps [simp del]

lemma run_scripts_eq:
  "1 \<le> i \<Longrightarrow> i \<le> targetVersion allUpgrades \<Longrightarrow>
   run_scripts allUpgrades i (db, trace) =
     Inr (fold upgradeStartup_of (drop (nat (i - 1)) allUpgrades) db,
          trace @ concat (map (\<lambda>j. [SaveUpgradeCopy j, RunUpgrade j]) [i..targetVersion allUpgrades - 1]))"
proof (induction allUpgrades i "(db, trace)" arbitrary: db trace rule: run_scripts.induct)
  case (1 allUpgrades i db trace)
  show ?case
  proof (cases "i < targetVersion allUpgrades")
    case False
    then have "i = targetVersion allUpgrades" using "1.prems" by simp
    then show ?thesis
      by (subst run_scripts.simps) (simp add: targetVersion_def)
  next
    case True
    have rng: "\<not> (i - 1 < 0 \<or> int (length allUpgrades) \<le> i - 1)"
      using True "1.prems" by (simp add: targetVersion_def)
    have n: "nat (i - 1) < length allUpgrades" using rng by linarith
    have dr: "drop (nat (i - 1)) allUpgrades
                = allUpgrades ! nat (i - 1) # drop (nat (i + 1 - 1)) allUpgrades"
      using n "1.prems"(1) Cons_nth_drop_Suc [OF n] by (simp add: nat_add_distrib Suc_nat_eq_nat_zadd1)
    have up: "[i..targetVersion allUpgrades - 1] = i # [i + 1..targetVersion allUpgrades - 1]"
      using True by (simp add: upto_rec1)
    have ih: "run_scripts allUpgrades (i + 1)
        (upgradeStartup_of (allUpgrades ! nat (i - 1)) db, trace @ [SaveUpgradeCopy i, RunUpgrade i])
      = Inr (fold upgradeStartup_of (drop (nat (i + 1 - 1)) allUpgrades)
               (upgradeStartup_of (allUpgrades ! nat (i - 1)) db),
             (trace @ [SaveUpgradeCopy i, RunUpgrade i])
               @ concat (map (\<lambda>j. [SaveUpgradeCopy j, RunUpgrade j])
                   [i + 1..targetVersion allUpgrades - 1]))"
      using "1.hyps" [OF True rng] True "1.prems" by simp
    show ?thesis
      by (subst run_scripts.simps) (simp only: True rng if_True if_False ih dr up, simp)
  qed
qed

lemma import_scripts_eq:
  "1 \<le> i \<Longrightarrow>
   import_scripts allUpgrades i ob = Inr (fold run_import (drop (nat (i - 1)) allUpgrades) ob)"
proof (induction allUpgrades i ob rule: import_scripts.induct)
  case (1 allUpgrades i ob)
  show ?case
  proof (cases "i < targetVersion allUpgrades")
    case False
    then have "length allUpgrades \<le> nat (i - 1)" by (simp add: targetVersion_def)
    then show ?thesis using False
      by (subst import_scripts.simps) simp
  next
    case True
    have rng: "\<not> (i - 1 < 0 \<or> int (length allUpgrades) \<le> i - 1)"
      using True "1.prems" by (simp add: targetVersion_def)
    have n: "nat (i - 1) < length allUpgrades" using rng by linarith
    have dr: "drop (nat (i - 1)) allUpgrades
                = allUpgrades ! nat (i - 1) # drop (nat (i + 1 - 1)) allUpgrades"
      using n "1.prems"(1) Cons_nth_drop_Suc [OF n] by (simp add: nat_add_distrib Suc_nat_eq_nat_zadd1)
    have ih: "import_scripts allUpgrades (i + 1) (run_import (allUpgrades ! nat (i - 1)) ob)
      = Inr (fold run_import (drop (nat (i + 1 - 1)) allUpgrades)
               (run_import (allUpgrades ! nat (i - 1)) ob))"
      using "1.IH" [OF True rng] "1.prems" by simp
    show ?thesis
      by (subst import_scripts.simps) (simp only: True rng if_True if_False ih dr, simp)
  qed
qed

lemma fold_run_import:
  "fold run_import us ob = fold (\<lambda>f. f) (List.map_filter upgradeImport_of us) ob"
  by (induction us arbitrary: ob) (simp_all add: List.map_filter_simps run_import_def split: option.splits)

text \<open>
  Claim C5. When the version stored in the store exceeds the target version,
  \<open>upgradeStartup\<close> ends before any copy, upgrade step, version stamp or save, with the store
  as it was: this part of the claim holds. It does not end the way the claim says, by
  reporting the fatal error and halting the process: it ends with the \<open>ReferenceError\<close>
  raised by the unbound name \<open>showFatalError\<close>, which is handed to the caller.
\<close>

theorem upgradeStartup_too_new:
  assumes "getKey_version db 1 > targetVersion allUpgrades"
  shows "upgradeStartup allUpgrades db = Inl (ReferenceError, db, [])"
  using assms by (simp add: upgradeStartup_def)

text \<open>
  Claim C5 on a store at version 4 with two upgrade steps (target version 3): the run ends
  with \<open>ReferenceError\<close>, the store and the empty trace.
\<close>

theorem upgradeStartup_too_new_witness:
  "getKey_version \<lparr>page_config_version = Some 4, content = (7::nat)\<rparr> 1
     > targetVersion [\<lparr>upgradeStartup_of = (\<lambda>s. s\<lparr>content := content s + 1\<rparr>), upgradeImport_of = (None :: (unit obj \<Rightarrow> unit obj) option)\<rparr>,
                      \<lparr>upgradeStartup_of = (\<lambda>s. s\<lparr>content := content s * 2\<rparr>), upgradeImport_of = None\<rparr>]
   \<and> upgradeStartup [\<lparr>upgradeStartup_of = (\<lambda>s. s\<lparr>content := content s + 1\<rparr>), upgradeImport_of = (None :: (unit obj \<Rightarrow> unit obj) option)\<rparr>,
                      \<lparr>upgradeStartup_of = (\<lambda>s. s\<lparr>content := content s * 2\<rparr>), upgradeImport_of = None\<rparr>]
        \<lparr>page_config_version = Some 4, content = (7::nat)\<rparr>
     = Inl (ReferenceError, \<lparr>page_config_version = Some 4, content = 7\<rparr>, [])"
  using upgradeStartup_too_new
    [of "[\<lparr>upgradeStartup_of = (\<lambda>s. s\<lparr>content := content s + 1\<rparr>), upgradeImport_of = (None :: (unit obj \<Rightarrow> unit obj) option)\<rparr>,
          \<lparr>upgradeStartup_of = (\<lambda>s. s\<lparr>content := content s * 2\<rparr>), upgradeImport_of = None\<rparr>]"
        "\<lparr>page_config_version = Some 4, content = (7::nat)\<rparr>"]
  by (simp add: getKey_version_def targetVersion_def)

text \<open>
  Claim C6. On a store at version \<open>v\<close> with \<open>1 \<le> v \<le> target\<close>, \<open>upgradeStartup\<close> runs the
  steps \<open>v, v + 1, ..., target - 1\<close>, each once and in ascending order (each after the copy of
  the store for that version), then sets the version key to the target and saves; the store it
  returns is the result of these steps, in this order, with the version key set. A store
  already at the target version has no step run, and is stamped and saved all the same.
\<close>

theorem upgradeStartup_steps:
  assumes "getKey_version db 1 = v" and "1 \<le> v" and "v \<le> targetVersion allUpgrades"
  shows "upgradeStartup allUpgrades db =
           Inr (setKey_version (targetVersion allUpgrades)
                  (fold upgradeStartup_of (drop (nat (v - 1)) allUpgrades) db),
                concat (map (\<lambda>j. [SaveUpgradeCopy j, RunUpgrade j]) [v..targetVersion allUpgrades - 1])
                  @ [SetVersion (targetVersion allUpgrades), Save])
         \<and> (v = targetVersion allUpgrades \<longrightarrow>
             upgradeStartup allUpgrades db =
               Inr (setKey_version (targetVersion allUpgrades) db,
                    [SetVersion (targetVersion allUpgrades), Save]))"
proof -
  have g: "upgradeStartup allUpgrades db =
           Inr (setKey_version (targetVersion allUpgrades)
                  (fold upgradeStartup_of (drop (nat (v - 1)) allUpgrades) db),
                concat (map (\<lambda>j. [SaveUpgradeCopy j, RunUpgrade j]) [v..targetVersion allUpgrades - 1])
                  @ [SetVersion (targetVersion allUpgrades), Save])"
    using assms run_scripts_eq [OF assms(2,3), of db "[]"]
    by (simp add: upgradeStartup_def)
  have "upgradeStartup allUpgrades db =
           Inr (setKey_version (targetVersion allUpgrades) db,
                [SetVersion (targetVersion allUpgrades), Save])"
    if "v = targetVersion allUpgrades"
    using g that by (simp add: targetVersion_def)
  with g show ?thesis by blast
qed

text \<open>Claim C6 on two steps, from an unset version (read as 1) and from version 3.\<close>

theorem upgradeStartup_steps_witness:
  "upgradeStartup [\<lparr>upgradeStartup_of = (\<lambda>s. s\<lparr>content := content s + 1\<rparr>), upgradeImport_of = (None :: (unit obj \<Rightarrow> unit obj) option)\<rparr>,
                   \<lparr>upgradeStartup_of = (\<lambda>s. s\<lparr>content := content s * 2\<rparr>), upgradeImport_of = None\<rparr>]
        \<lparr>page_config_version = None, content = (7::nat)\<rparr>
     = Inr (\<lparr>page_config_version = Some 3, content = 16\<rparr>,
            [SaveUpgradeCopy 1, RunUpgrade 1, SaveUpgradeCopy 2, RunUpgrade 2, SetVersion 3, Save])
   \<and> upgradeStartup [\<lparr>upgradeStartup_of = (\<lambda>s. s\<lparr>content := content s + 1\<rparr>), upgradeImport_of = (None :: (unit obj \<Rightarrow> unit obj) option)\<rparr>,
                   \<lparr>upgradeStartup_of = (\<lambda>s. s\<lparr>content := content s * 2\<rparr>), upgradeImport_of = None\<rparr>]
        \<lparr>page_config_version = Some 3, content = (7::nat)\<rparr>
     = Inr (\<lparr>page_config_version = Some 3, content = 7\<rparr>, [SetVersion 3, Save])"
  using upgradeStartup_steps
    [of "\<lparr>page_config_version = None, content = (7::nat)\<rparr>" 1
        "[\<lparr>upgradeStartup_of = (\<lambda>s. s\<lparr>content := content s + 1\<rparr>), upgradeImport_of = (None :: (unit obj \<Rightarrow> unit obj) option)\<rparr>,
          \<lparr>upgradeStartup_of = (\<lambda>s. s\<lparr>content := content s * 2\<rparr>), upgradeImport_of = None\<rparr>]"]
    upgradeStartup_steps
    [of "\<lparr>page_config_version = Some 3, content = (7::nat)\<rparr>" 3
        "[\<lparr>upgradeStartup_of = (\<lambda>s. s\<lparr>content := content s + 1\<rparr>), upgradeImport_of = (None :: (unit obj \<Rightarrow> unit obj) option)\<rparr>,
          \<lparr>upgradeStartup_of = (\<lambda>s. s\<lparr>content := content s * 2\<rparr>), upgradeImport_of = None\<rparr>]"]
  by (simp add: getKey_version_def setKey_version_def targetVersion_def upto.simps)

text \<open>
  Claim C7. Let \<open>v\<close> be the object's version, or 1 when the version is absent (or 0, which
  \<open>obj.version || 1\<close> also reads as 1), and let \<open>v \<ge> 1\<close>. Then \<open>upgradeImport\<close> applies, in
  order, the import transforms of the steps \<open>v, ..., target - 1\<close> that have one (the steps
  at the positions from \<open>v - 1\<close> on in \<open>allUpgrades\<close>), then sets the version to the target
  and returns the object. An object already at the target version is returned as it is, and
  importing the result of an import again returns it unchanged.
\<close>

theorem upgradeImport_steps:
  fixes allUpgrades :: "('c, 'b) upgrade list" and ob :: "'b obj" and v :: int
  assumes "(version ob = None \<or> version ob = Some 0) \<and> v = 1 \<or> version ob = Some v \<and> 1 \<le> v"
  shows "upgradeImport allUpgrades ob =
           Inr ((fold (\<lambda>f. f)
                   (List.map_filter upgradeImport_of (drop (nat (v - 1)) allUpgrades)) ob)
                \<lparr>version := Some (targetVersion allUpgrades)\<rparr>)
         \<and> (version ob = Some (targetVersion allUpgrades) \<longrightarrow> upgradeImport allUpgrades ob = Inr ob)
         \<and> (\<forall>ob'. upgradeImport allUpgrades ob = Inr ob' \<longrightarrow> upgradeImport allUpgrades ob' = Inr ob')"
proof -
  have t1: "1 \<le> targetVersion allUpgrades" by (simp add: targetVersion_def)
  have start: "version_or_1 ob = v" and v1: "1 \<le> v"
    using assms by (auto simp: version_or_1_def)
  have cur: "upgradeImport allUpgrades x = Inr x"
    if "version x = Some (targetVersion allUpgrades)" for x :: "'b obj"
  proof -
    have v: "version_or_1 x = targetVersion allUpgrades"
      using that t1 by (simp add: version_or_1_def)
    have "import_scripts allUpgrades (targetVersion allUpgrades) x = Inr x"
      by (subst import_scripts.simps) simp
    moreover have "x\<lparr>version := Some (targetVersion allUpgrades)\<rparr> = x"
      using that by simp
    ultimately show ?thesis by (simp add: upgradeImport_def v)
  qed
  have g: "upgradeImport allUpgrades ob =
           Inr ((fold (\<lambda>f. f)
                   (List.map_filter upgradeImport_of (drop (nat (v - 1)) allUpgrades)) ob)
                \<lparr>version := Some (targetVersion allUpgrades)\<rparr>)"
    using import_scripts_eq [OF v1, of allUpgrades ob]
    by (simp add: upgradeImport_def fold_run_import start)
  have idem: "upgradeImport allUpgrades ob' = Inr ob'"
    if "upgradeImport allUpgrades ob = Inr ob'" for ob'
  proof -
    have "version ob' = Some (targetVersion allUpgrades)" using that g by auto
    then show ?thesis by (rule cur)
  qed
  show ?thesis
  proof (intro conjI allI impI)
    show "upgradeImport allUpgrades ob =
           Inr ((fold (\<lambda>f. f)
                   (List.map_filter upgradeImport_of (drop (nat (v - 1)) allUpgrades)) ob)
                \<lparr>version := Some (targetVersion allUpgrades)\<rparr>)"
      by (rule g)
    show "upgradeImport allUpgrades ob = Inr ob"
      if "version ob = Some (targetVersion allUpgrades)"
      using that by (rule cur)
    show "upgradeImport allUpgrades ob' = Inr ob'"
      if "upgradeImport allUpgrades ob = Inr ob'" for ob'
      using that by (rule idem)
  qed
qed

text \<open>
  Claim C7 on three steps, the first without an import transform, the second adding 10 and
  the third doubling: from an absent version (steps 1 to 3), from version 3 (step 3 alone)
  and from the target version 4 (no step).
\<close>

theorem upgradeImport_steps_witness:
  "upgradeImport [\<lparr>upgradeStartup_of = (\<lambda>s :: unit store. s), upgradeImport_of = None\<rparr>,
                  \<lparr>upgradeStartup_of = (\<lambda>s. s), upgradeImport_of = Some (\<lambda>ob. ob\<lparr>body := body ob + 10\<rparr>)\<rparr>,
                  \<lparr>upgradeStartup_of = (\<lambda>s. s), upgradeImport_of = Some (\<lambda>ob. ob\<lparr>body := body ob * 2\<rparr>)\<rparr>]
      \<lparr>version = None, body = (5::nat)\<rparr> = Inr \<lparr>version = Some 4, body = 30\<rparr>
   \<and> upgradeImport [\<lparr>upgradeStartup_of = (\<lambda>s :: unit store. s), upgradeImport_of = None\<rparr>,
                  \<lparr>upgradeStartup_of = (\<lambda>s. s), upgradeImport_of = Some (\<lambda>ob. ob\<lparr>body := body ob + 10\<rparr>)\<rparr>,
                  \<lparr>upgradeStartup_of = (\<lambda>s. s), upgradeImport_of = Some (\<lambda>ob. ob\<lparr>body := body ob * 2\<rparr>)\<rparr>]
      \<lparr>version = Some 3, body = (5::nat)\<rparr> = Inr \<lparr>version = Some 4, body = 10\<rparr>
   \<and> upgradeImport [\<lparr>upgradeStartup_of = (\<lambda>s :: unit store. s), upgradeImport_of = None\<rparr>,
                  \<lparr>upgradeStartup_of = (\<lambda>s. s), upgradeImport_of = Some (\<lambda>ob. ob\<lparr>body := body ob + 10\<rparr>)\<rparr>,
                  \<lparr>upgradeStartup_of = (\<lambda>s. s), upgradeImport_of = Some (\<lambda>ob. ob\<lparr>body := body ob * 2\<rparr>)\<rparr>]
      \<lparr>version = Some 4, body = (5::nat)\<rparr> = Inr \<lparr>version = Some 4, body = 5\<rparr>"
proof -
  let ?ups = "[\<lparr>upgradeStartup_of = (\<lambda>s :: unit store. s), upgradeImport_of = None\<rparr>,
          \<lparr>upgradeStartup_of = (\<lambda>s. s), upgradeImport_of = Some (\<lambda>ob. ob\<lparr>body := body ob + 10\<rparr>)\<rparr>,
          \<lparr>upgradeStartup_of = (\<lambda>s. s), upgradeImport_of = Some (\<lambda>ob. ob\<lparr>body := body ob * 2\<rparr>)\<rparr>]"
  have t: "targetVersion ?ups = 4" by (simp add: targetVersion_def)
  have a: "upgradeImport ?ups \<lparr>version = None, body = (5::nat)\<rparr> = Inr \<lparr>version = Some 4, body = 30\<rparr>"
    using upgradeImport_steps [of "\<lparr>version = None, body = (5::nat)\<rparr>" 1 ?ups]
    by (simp add: t List.map_filter_simps)
  have b: "upgradeImport ?ups \<lparr>version = Some 3, body = (5::nat)\<rparr> = Inr \<lparr>version = Some 4, body = 10\<rparr>"
    using upgradeImport_steps [of "\<lparr>version = Some 3, body = (5::nat)\<rparr>" 3 ?ups]
    by (simp add: t List.map_filter_simps)
  have c: "upgradeImport ?ups \<lparr>version = Some 4, body = (5::nat)\<rparr> = Inr \<lparr>version = Some 4, body = 5\<rparr>"
    using upgradeImport_steps [of "\<lparr>version = Some 4, body = (5::nat)\<rparr>" 4 ?ups]
    by (simp add: t)
  from a b c show ?thesis by simp
qed

section \<open>Properties of the protocol service\<close>

text \<open>The definitions a concrete run unfolds to.\<close>

lemmas proto_defs = run_def started_def processIncoming_def initSocket_def on_message_def emit_def
  on_version_def version_gt_def socketResponse_def socketCommand_def on_socket_def initAPI1_def
  initAPI2_def add_listeners_def new_device_v1_def new_device_v2_def register_device_def
  device_id_def request_button_def unrequest_button_def handleBankChanged_def close_v1_def
  close_v2_def get_instances_def sent_to_def parseInt_def Let_def




text \<open>
  Claim C8. On a new connection, a version message with a version above 2 is answered with
  \<open>{version: 2, error: 'cannot continue'}\<close> and the socket is closed; no listener for
  \<open>new_device\<close> is attached, so a later \<open>new_device\<close> changes nothing and no device is
  registered. Version 1 is answered with \<open>{version: 1}\<close> and the v1 listener is attached. Any
  other value, 0 and an undefined version among them, is answered with \<open>{version: 2}\<close> and the
  v2 listeners are attached. In all three cases the registry calls, the current client and
  the other sockets are unchanged.
\<close>

theorem version_negotiation:
  fixes svc :: "('buf, 'inst) service" and addr :: string and v :: "int option"
  defines "sid \<equiv> next_socket svc"
  defines "svc1 \<equiv> snd (processIncoming addr svc)"
  defines "svc2 \<equiv> on_message sid (Version v) svc1"
  shows "fst (processIncoming addr svc) = sid
    \<and> sockets svc2 sid = Some
        (if \<exists>n. v = Some n \<and> 2 < n then
           \<lparr>remoteAddress = addr, listeners = [OnVersion], button_listeners = None,
            sent = [ReplyVersion 2 (Some ''cannot continue'')], close_called = True\<rparr>
         else if v = Some 1 then
           \<lparr>remoteAddress = addr, listeners = [OnVersion, OnceNewDevice1], button_listeners = None,
            sent = [ReplyVersion 1 None], close_called = False\<rparr>
         else
           \<lparr>remoteAddress = addr,
            listeners = [OnVersion, OnceNewDevice2, OnRequestButton, OnUnrequestButton],
            button_listeners = None, sent = [ReplyVersion 2 None], close_called = False\<rparr>)
    \<and> calls svc2 = calls svc \<and> client svc2 = client svc
    \<and> (\<forall>k. k \<noteq> sid \<longrightarrow> sockets svc2 k = sockets svc k)
    \<and> ((\<exists>n. v = Some n \<and> 2 < n) \<longrightarrow> (\<forall>x. on_message sid (NewDevice x) svc2 = svc2))"
  unfolding sid_def svc1_def svc2_def
  by (cases v)
     (auto simp: on_message_def emit_def processIncoming_def initSocket_def on_version_def
       version_gt_def socketResponse_def on_socket_def initAPI1_def initAPI2_def
       add_listeners_def Let_def)

text \<open>Claim C8 at the versions 3, 1, 0 and undefined, on the first connection of a service.\<close>

theorem version_negotiation_witness:
  "sent_to (on_message 0 (Version (Some 3))
      (snd (processIncoming ''a'' (started (\<lambda>p b. (p :: int, b :: int)) ())))) 0
     = [ReplyVersion 2 (Some ''cannot continue'')]
   \<and> calls (on_message 0 (NewDevice ''x'') (on_message 0 (Version (Some 3))
      (snd (processIncoming ''a'' (started (\<lambda>p b. (p :: int, b :: int)) ()))))) = []
   \<and> sent_to (on_message 0 (Version (Some 1))
      (snd (processIncoming ''a'' (started (\<lambda>p b. (p :: int, b :: int)) ())))) 0
     = [ReplyVersion 1 None]
   \<and> sent_to (on_message 0 (Version (Some 0))
      (snd (processIncoming ''a'' (started (\<lambda>p b. (p :: int, b :: int)) ())))) 0
     = [ReplyVersion 2 None]
   \<and> sent_to (on_message 0 (Version None)
      (snd (processIncoming ''a'' (started (\<lambda>p b. (p :: int, b :: int)) ())))) 0
     = [ReplyVersion 2 None]"
  using version_negotiation [of "''a''" "started (\<lambda>p b. (p :: int, b :: int)) ()" "Some 3"]
    version_negotiation [of "''a''" "started (\<lambda>p b. (p :: int, b :: int)) ()" "Some 1"]
    version_negotiation [of "''a''" "started (\<lambda>p b. (p :: int, b :: int)) ()" "Some 0"]
    version_negotiation [of "''a''" "started (\<lambda>p b. (p :: int, b :: int)) ()" "None"]
  by (simp add: started_def sent_to_def)


text \<open>
  Who the current client is: only the v2 \<open>new_device\<close> listener sets it, to its own socket,
  and only the v2 close listener clears it.
\<close>

lemma client_on_socket: "client (on_socket sid f svc) = client svc"
  by (simp add: on_socket_def split: option.splits)

lemma client_handleBankChanged: "client (handleBankChanged svc page bank) = client svc"
  by (simp add: handleBankChanged_def socketCommand_def client_on_socket parseInt_def Let_def
      split: option.splits)

lemma client_new_device_v1: "client (new_device_v1 sid svc) = client svc"
  by (simp add: new_device_v1_def register_device_def socketResponse_def add_listeners_def
      client_on_socket Let_def)

lemma client_new_device_v2: "client (new_device_v2 sid svc) = Some sid"
  by (simp add: new_device_v2_def register_device_def socketResponse_def add_listeners_def
      client_on_socket Let_def)

lemma client_on_version: "client (on_version sid v svc) = client svc"
  by (simp add: on_version_def socketResponse_def initAPI1_def initAPI2_def add_listeners_def
      client_on_socket Let_def)

lemma client_request_button:
  "client (case request_button sid page bank svc of Inl (e, s') \<Rightarrow> s' | Inr s' \<Rightarrow> s') = client svc"
  by (simp add: request_button_def socketResponse_def client_handleBankChanged
      client_on_socket Let_def split: option.splits)

lemma client_unrequest_button:
  "client (case unrequest_button sid page bank svc of Inl (e, s') \<Rightarrow> s' | Inr s' \<Rightarrow> s') = client svc"
  by (simp add: unrequest_button_def socketResponse_def client_on_socket Let_def
      split: option.splits)

lemma call_listener_NewDevice:
  "\<exists>svc'. call_listener l (NewDevice x) sid svc = Inr svc'
     \<and> client svc' = (if l = OnceNewDevice2 then Some sid else client svc)"
  by (cases l) (simp_all add: client_new_device_v1 client_new_device_v2)

lemma call_listeners_NewDevice:
  "\<exists>svc'. call_listeners hs (NewDevice x) sid svc = Inr svc'
     \<and> client svc' = (if OnceNewDevice2 \<in> set hs then Some sid else client svc)"
proof (induction hs arbitrary: svc)
  case Nil
  show ?case by simp
next
  case (Cons h hs)
  obtain svc1 where h1: "call_listener h (NewDevice x) sid svc = Inr svc1"
    and c1: "client svc1 = (if h = OnceNewDevice2 then Some sid else client svc)"
    using call_listener_NewDevice [of h x sid svc] by blast
  obtain svc2 where h2: "call_listeners hs (NewDevice x) sid svc1 = Inr svc2"
    and c2: "client svc2 = (if OnceNewDevice2 \<in> set hs then Some sid else client svc1)"
    using Cons.IH [of svc1] by blast
  show ?case using h1 c1 h2 c2 by simp
qed

lemma call_listener_other:
  assumes "\<And>x. ev \<noteq> NewDevice x"
    and "client (case call_listener l ev sid svc of Inl (e, s') \<Rightarrow> s' | Inr s' \<Rightarrow> s') = Some c"
  shows "client svc = Some c"
proof (cases l)
  case OnRequestButton
  then show ?thesis using assms client_request_button [of sid _ _ svc] by (cases ev) simp_all
next
  case OnUnrequestButton
  then show ?thesis using assms client_unrequest_button [of sid _ _ svc] by (cases ev) simp_all
next
  case (OnCloseV2 d)
  then show ?thesis using assms by (cases ev) (simp_all add: close_v2_def Let_def)
next
  case (OnCloseV1 d)
  then show ?thesis using assms by (cases ev) (simp_all add: close_v1_def)
qed (use assms in \<open>cases ev; simp add: client_on_version get_instances_def socketResponse_def client_on_socket\<close>)+

lemma call_listeners_other:
  assumes "\<And>x. ev \<noteq> NewDevice x"
  shows "client (case call_listeners hs ev sid svc of Inl (e, s') \<Rightarrow> s' | Inr s' \<Rightarrow> s') = Some c
           \<Longrightarrow> client svc = Some c"
proof (induction hs arbitrary: svc)
  case Nil
  then show ?case by simp
next
  case (Cons h hs)
  show ?case
  proof (cases "call_listener h ev sid svc")
    case (Inl a)
    then show ?thesis using Cons.prems call_listener_other [OF assms, of h sid svc c]
      by (cases a) simp
  next
    case (Inr svc1)
    then have "client svc1 = Some c" using Cons.prems Cons.IH [of svc1] by simp
    then show ?thesis using Inr call_listener_other [OF assms, of h sid svc c] by simp
  qed
qed

lemma step_client:
  assumes "client (step i svc) = Some c"
  shows "case v2_registration svc i of Some c' \<Rightarrow> c = c' | None \<Rightarrow> client svc = Some c"
proof (cases i)
  case (Connect addr)
  then show ?thesis using assms by (simp add: processIncoming_def)
next
  case (BankInvalidated page bank)
  then show ?thesis using assms by (simp add: client_handleBankChanged)
next
  case (Recv sid ev)
  show ?thesis
  proof (cases "sockets svc sid")
    case None
    then show ?thesis using assms Recv by (cases ev) (simp_all add: on_message_def emit_def)
  next
    case (Some s)
    show ?thesis
    proof (cases "\<exists>x. ev = NewDevice x")
      case True
      then obtain x where ev: "ev = NewDevice x" by blast
      obtain svc' where r: "call_listeners (filter (listens_to ev) (listeners s)) ev sid svc = Inr svc'"
        and c: "client svc' = (if OnceNewDevice2 \<in> set (filter (listens_to ev) (listeners s))
                               then Some sid else client svc)"
        using call_listeners_NewDevice [of "filter (listens_to ev) (listeners s)" x sid svc] ev
        by blast
      have "step i svc = svc'" using Recv Some r by (simp add: on_message_def emit_def)
      then show ?thesis using assms Recv Some c ev by (auto split: if_splits)
    next
      case False
      then have ne: "\<And>x. ev \<noteq> NewDevice x" by blast
      have "client svc = Some c"
        using assms Recv Some
          call_listeners_other [OF ne, of "filter (listens_to ev) (listeners s)" sid svc c]
        by (simp add: on_message_def emit_def)
      moreover have "v2_registration svc i = None" using Recv False by (cases ev) simp_all
      ultimately show ?thesis by simp
    qed
  qed
qed

lemma client_is_last_registered_v2:
  assumes "client (run ins svc) = Some c" and "\<And>c'. client svc = Some c' \<Longrightarrow> l = Some c'"
  shows "last_registered_v2 ins svc l = Some c"
  using assms
proof (induction ins arbitrary: svc l)
  case Nil
  then show ?case by (simp add: run_def)
next
  case (Cons i ins)
  have r: "client (run ins (step i svc)) = Some c" using Cons.prems(1) by (simp add: run_def)
  have "(case v2_registration svc i of None \<Rightarrow> l | Some c \<Rightarrow> Some c) = Some c'"
    if "client (step i svc) = Some c'" for c'
    using step_client [OF that] Cons.prems(2) by (cases "v2_registration svc i") simp_all
  then show ?case using Cons.IH [OF r] by simp
qed

text \<open>
  Claim C9, as amended. In every state the service reaches from its start by inputs whose
  numbers are in range, a change signalled for safe integers \<open>(page, bank)\<close>, with
  \<open>bank - 1\<close> safe as well, either sends nothing, or sends exactly one frame
  \<open>fillImage{page, bank: bank - 1, keyIndex: bank - 1, data}\<close>, where \<open>data\<close> is the
  renderer's buffer for \<open>(page, bank)\<close>; the frame goes to the current client, which is the
  session of the most recent v2 registration, and \<open>bank - 1\<close> is in that session's
  subscription set for \<open>page\<close>. No other socket and nothing else in the state changes.
\<close>

theorem push_only_to_last_registered_v2:
  fixes ins :: "input list" and g :: "int \<Rightarrow> int \<Rightarrow> 'buf" and i :: 'inst
    and page :: int and bank :: int
  defines "svc \<equiv> run ins (started g i)"
  assumes "\<forall>inp \<in> set ins. input_in_range inp"
    and "safe_integer page" and "safe_integer bank" and "safe_integer (bank - 1)"
  shows "handleBankChanged svc page bank = svc
    \<or> (\<exists>c s ls banks.
          last_registered_v2 ins (started g i) None = Some c
        \<and> client svc = Some c \<and> sockets svc c = Some s
        \<and> button_listeners s = Some ls \<and> ls (Page page) = Some banks \<and> bank - 1 \<in> banks
        \<and> handleBankChanged svc page bank =
            svc\<lparr>sockets := (sockets svc)(c \<mapsto>
              s\<lparr>sent := sent s @ [FillImage page (bank - 1) (bank - 1) (graphics svc page bank)]\<rparr>)\<rparr>)"
proof (cases "handleBankChanged svc page bank = svc")
  case True
  then show ?thesis by simp
next
  case False
  then obtain c s ls banks where c: "client svc = Some c" and s: "sockets svc c = Some s"
    and ls: "button_listeners s = Some ls" and b: "ls (Page page) = Some banks"
    and m: "bank - 1 \<in> banks"
    by (auto simp: handleBankChanged_def parseInt_def Let_def split: option.splits if_splits)
  have "last_registered_v2 ins (started g i) None = Some c"
    using c client_is_last_registered_v2 [of ins "started g i" c None]
    by (simp add: svc_def started_def)
  moreover have "handleBankChanged svc page bank =
            svc\<lparr>sockets := (sockets svc)(c \<mapsto>
              s\<lparr>sent := sent s @ [FillImage page (bank - 1) (bank - 1) (graphics svc page bank)]\<rparr>)\<rparr>"
    using c s ls b m
    by (simp add: handleBankChanged_def socketCommand_def on_socket_def parseInt_def Let_def)
  ultimately show ?thesis using c s ls b m by blast
qed


text \<open>
  Claim C9 as amended, after the spec's scenario: the change signalled for page 1, bank 4
  reaches session 0, the last v2 registration, as a frame for key index 3.
\<close>

theorem push_only_to_last_registered_v2_witness:
  "last_registered_v2
      [Connect ''a'', Recv 0 (Version (Some 2)), Recv 0 (NewDevice ''x''), Recv 0 (RequestButton 1 3)]
      (started (\<lambda>p b. (p :: int, b :: int)) ()) None = Some 0
   \<and> sent_to (handleBankChanged
        (run [Connect ''a'', Recv 0 (Version (Some 2)), Recv 0 (NewDevice ''x''),
              Recv 0 (RequestButton 1 3)] (started (\<lambda>p b. (p :: int, b :: int)) ())) 1 4) 0
     = [ReplyVersion 2 None, ReplyNewDevice True, ReplyRequestButton ''ok'',
        FillImage 1 3 3 (1, 4), FillImage 1 3 3 (1, 4)]"
proof -
  let ?ins = "[Connect ''a'', Recv 0 (Version (Some 2)), Recv 0 (NewDevice ''x''),
               Recv 0 (RequestButton 1 3)]"
  let ?st = "started (\<lambda>p b. (p :: int, b :: int)) ()"
  have c: "client (run ?ins ?st) = Some 0" by (simp add: proto_defs)
  have s: "sent_to (run ?ins ?st) 0
      = [ReplyVersion 2 None, ReplyNewDevice True, ReplyRequestButton ''ok'', FillImage 1 3 3 (1, 4)]"
    by (simp add: proto_defs)
  have g: "graphics (run ?ins ?st) 1 4 = (1, 4)" by (simp add: proto_defs)
  have n: "handleBankChanged (run ?ins ?st) 1 4 \<noteq> run ?ins ?st"
  proof
    assume "handleBankChanged (run ?ins ?st) 1 4 = run ?ins ?st"
    then have "sent_to (handleBankChanged (run ?ins ?st) 1 4) 0 = sent_to (run ?ins ?st) 0"
      by simp
    then show False by (simp add: proto_defs)
  qed
  have r: "\<forall>inp \<in> set ?ins. input_in_range inp" by (simp add: safe_integer_def)
  have r1: "safe_integer 1" and r2: "safe_integer 4" and r3: "safe_integer (4 - 1)"
    by (simp_all add: safe_integer_def)
  show ?thesis
    using push_only_to_last_registered_v2 [OF r r1 r2 r3, of "\<lambda>p b. (p, b)" "()"] n c s g
    by (auto simp: sent_to_def)
qed

text \<open>
  Claim C9 as stated fails on the bank number: a session subscribed to \<open>(1, 3)\<close> alone, and
  so not to \<open>(1, 4)\<close>, is sent a frame when a change is signalled for \<open>(1, 4)\<close>, and the frame
  carries \<open>bank = keyIndex = 3\<close>, not the signalled bank 4.
\<close>

theorem push_bank_counterexample:
  "\<not> subscribed (run [Connect ''a'', Recv 0 (Version (Some 2)), Recv 0 (NewDevice ''x''),
        Recv 0 (RequestButton 1 3)] (started (\<lambda>p b. (p, b)) ())) 0 1 4
   \<and> sent_to (run [Connect ''a'', Recv 0 (Version (Some 2)), Recv 0 (NewDevice ''x''),
        Recv 0 (RequestButton 1 3)] (started (\<lambda>p b. (p, b)) ())) 0
     = [ReplyVersion 2 None, ReplyNewDevice True, ReplyRequestButton ''ok'', FillImage 1 3 3 (1, 4)]
   \<and> sent_to (run [Connect ''a'', Recv 0 (Version (Some 2)), Recv 0 (NewDevice ''x''),
        Recv 0 (RequestButton 1 3), BankInvalidated 1 4] (started (\<lambda>p b. (p, b)) ())) 0
     = [ReplyVersion 2 None, ReplyNewDevice True, ReplyRequestButton ''ok'', FillImage 1 3 3 (1, 4),
        FillImage 1 3 3 (1, 4)]"
  by (simp add: proto_defs subscribed_def)

end
